theory Spec2Isabelle
  imports Complex_Main
begin

section \<open>Hard labeling of signature scores\<close>

text \<open>
  The development follows the tutorial notebook
  \<^verbatim>\<open>tutorials/gmm_postprocessing_and_hard_labeling.ipynb\<close>. The notebook keeps its
  data in the \<^verbatim>\<open>obs\<close> table of an AnnData object (one row per cell, one named column per
  score or probability) and derives label columns from it with pandas, numpy, scipy and
  scikit-learn calls. Each call is written out below as a HOL function with the behaviour
  the library documents; scores are real numbers (exact arithmetic, no NaN), every Python
  exception is a value of type \<open>error\<close>.
\<close>

subsection \<open>Python primitives\<close>

datatype error = ValueError | IndexError | UnboundLocalError

text \<open>\<^verbatim>\<open>xs[i]\<close> on a Python list or a numpy array: a negative index counts from the end,
  an index out of range raises IndexError.\<close>

definition getitem :: "'a list \<Rightarrow> int \<Rightarrow> error + 'a" where
  "getitem xs i =
     (if 0 \<le> i \<and> i < int (length xs) then Inr (xs ! nat i)
      else if - int (length xs) \<le> i \<and> i < 0 then Inr (xs ! nat (int (length xs) + i))
      else Inl IndexError)"

text \<open>\<^verbatim>\<open>s.rpartition(sep)\<close> restricted to the case where the separator occurs: the
  text before the last separator and the text after it.\<close>

definition rpartition :: "char \<Rightarrow> string \<Rightarrow> (string \<times> string) option" where
  "rpartition sep s =
     (if sep \<in> set s
      then Some (rev (tl (dropWhile (\<lambda>c. c \<noteq> sep) (rev s))),
                 rev (takeWhile (\<lambda>c. c \<noteq> sep) (rev s)))
      else None)"

text \<open>\<^verbatim>\<open>s.rsplit(sep, maxsplit)\<close> for a one-character separator: at most
  \<open>maxsplit\<close> splits, taken from the right.\<close>

fun rsplit :: "char \<Rightarrow> nat \<Rightarrow> string \<Rightarrow> string list" where
  "rsplit sep 0 s = [s]"
| "rsplit sep (Suc n) s =
     (case rpartition sep s of
        None \<Rightarrow> [s]
      | Some (h, t) \<Rightarrow> rsplit sep n h @ [t])"

text \<open>\<^verbatim>\<open>series.apply(f)\<close>: \<open>f\<close> on every entry in order; the first exception ends the
  call.\<close>

fun apply_series :: "('a \<Rightarrow> error + 'b) \<Rightarrow> 'a list \<Rightarrow> error + 'b list" where
  "apply_series f [] = Inr []"
| "apply_series f (x # xs) =
     (case f x of
        Inl e \<Rightarrow> Inl e
      | Inr y \<Rightarrow> (case apply_series f xs of Inl e \<Rightarrow> Inl e | Inr ys \<Rightarrow> Inr (y # ys)))"

subsection \<open>Row-wise argmax: \<^verbatim>\<open>DataFrame.idxmax(axis="columns")\<close>\<close>

text \<open>numpy's \<^verbatim>\<open>argmax\<close> scans left to right and keeps the first position of the largest
  value; on an empty sequence it raises ValueError.\<close>

fun argmax_from :: "nat \<Rightarrow> 'a::linorder \<Rightarrow> nat \<Rightarrow> 'a list \<Rightarrow> nat" where
  "argmax_from b bv i [] = b"
| "argmax_from b bv i (x # xs) =
     (if bv < x then argmax_from i x (Suc i) xs else argmax_from b bv (Suc i) xs)"

fun argmax :: "'a::linorder list \<Rightarrow> error + nat" where
  "argmax [] = Inl ValueError"
| "argmax (x # xs) = Inr (argmax_from 0 x 1 xs)"

definition idxmax_row :: "string list \<Rightarrow> real list \<Rightarrow> error + string" where
  "idxmax_row cols row = (case argmax row of Inl e \<Rightarrow> Inl e | Inr k \<Rightarrow> Inr (cols ! k))"

definition idxmax_columns :: "string list \<Rightarrow> real list list \<Rightarrow> error + string list" where
  "idxmax_columns cols rows =
     (if cols = [] then Inl ValueError else apply_series (idxmax_row cols) rows)"

subsection \<open>The observation table\<close>

text \<open>\<^verbatim>\<open>adata.obs\<close>: the cells (\<^verbatim>\<open>obs_names\<close>) and, for every column name, the value
  of each cell. \<^verbatim>\<open>adata.obs[c]\<close> is a column, \<^verbatim>\<open>adata.obs[cols]\<close> a table with one row
  per cell.\<close>

record 'e anndata =
  obs_names :: "'e list"
  obs :: "string \<Rightarrow> 'e \<Rightarrow> real"

definition obs_col :: "'e anndata \<Rightarrow> string \<Rightarrow> real list" where
  "obs_col adata c = map (obs adata c) (obs_names adata)"

definition obs_cols :: "'e anndata \<Rightarrow> string list \<Rightarrow> real list list" where
  "obs_cols adata cols = map (\<lambda>e. map (\<lambda>c. obs adata c e) cols) (obs_names adata)"

subsection \<open>Column names\<close>

text \<open>A score column is named \<^verbatim>\<open>{method}_{signature}\<close> (the notebook recovers the method
  with \<^verbatim>\<open>rsplit('_',1)[0]\<close>); the probability column of a score column \<open>key\<close> is
  \<^verbatim>\<open>key+'_gmm_3sigs'\<close> or \<^verbatim>\<open>key+'_gmm_2sigs'\<close>.\<close>

definition score_col :: "string \<Rightarrow> string \<Rightarrow> string" where
  "score_col method sig = method @ ''_'' @ sig"

definition gmm_col :: "string \<Rightarrow> string \<Rightarrow> string" where
  "gmm_col key scen = key @ ''_gmm_'' @ scen"

subsection \<open>Policy A: label by row-wise maximum\<close>

text \<open>
  The body of the loops that write \<^verbatim>\<open>{method}_scores_HL_3sigs\<close> (\<open>maxsplit = 1\<close>) and
  \<^verbatim>\<open>{method}_probabilities_HL_3sigs\<close>, \<^verbatim>\<open>{method}_probabilities_HL_2sigs\<close>
  (\<open>maxsplit = 3\<close>):
  \<^verbatim>\<open>curr_val = adata.obs[cols].idxmax(axis="columns")\<close>,
  \<^verbatim>\<open>curr_val = curr_val.apply(lambda x: x.rsplit('_',maxsplit)[1])\<close>.
\<close>

definition HL_idxmax :: "nat \<Rightarrow> string list \<Rightarrow> 'e anndata \<Rightarrow> error + string list" where
  "HL_idxmax maxsplit cols adata =
     (case idxmax_columns cols (obs_cols adata cols) of
        Inl e \<Rightarrow> Inl e
      | Inr curr_val \<Rightarrow> apply_series (\<lambda>x. getitem (rsplit CHR ''_'' maxsplit x) 1) curr_val)"

definition scores_HL :: "string list \<Rightarrow> 'e anndata \<Rightarrow> error + string list" where
  "scores_HL cols adata = HL_idxmax 1 cols adata"

definition probabilities_HL :: "string list \<Rightarrow> 'e anndata \<Rightarrow> error + string list" where
  "probabilities_HL cols adata = HL_idxmax 3 cols adata"

text \<open>The property the specification asks of a label: position \<open>k\<close> holds the largest
  value of the row and no earlier position holds it too.\<close>

definition first_max :: "real list \<Rightarrow> nat \<Rightarrow> bool" where
  "first_max vals k =
     (k < length vals \<and> (\<forall>j \<in> {..<length vals}. vals ! j \<le> vals ! k)
        \<and> (\<forall>j \<in> {..<k}. vals ! j < vals ! k))"

text \<open>The position that \<^verbatim>\<open>argmax\<close> returns for a non-empty row, used to write down
  the labels below.\<close>

definition argmax_pos :: "real list \<Rightarrow> nat" where
  "argmax_pos row = (case argmax row of Inl e \<Rightarrow> 0 | Inr k \<Rightarrow> k)"

subsection \<open>Histogram of a score column: \<^verbatim>\<open>np.histogram(a, bins, density=True)\<close>\<close>

text \<open>
  numpy takes the range from the smallest and largest value (widened by one half on each
  side when they coincide, \<open>(0, 1)\<close> for an empty column), places \<open>bins + 1\<close> equally
  spaced edges with \<^verbatim>\<open>linspace\<close>, counts the values of each bin (every bin is half-open
  except the last, which includes the right edge), and with \<^verbatim>\<open>density=True\<close> returns
  \<^verbatim>\<open>n / diff(bin_edges) / n.sum()\<close> together with the edges. \<open>bins\<close> is positive; the
  notebook passes 100.
\<close>

definition outer_edges :: "real list \<Rightarrow> real \<times> real" where
  "outer_edges a =
     (if a = [] then (0, 1)
      else let first_edge = Min (set a); last_edge = Max (set a)
           in if first_edge = last_edge then (first_edge - 1 / 2, last_edge + 1 / 2)
              else (first_edge, last_edge))"

definition linspace :: "real \<Rightarrow> real \<Rightarrow> nat \<Rightarrow> real list" where
  "linspace start stop num =
     (let ndiv = num - 1; step = (stop - start) / real ndiv
      in map (\<lambda>i. real i * step + start) [0..<ndiv] @ [stop])"

definition in_bin :: "real list \<Rightarrow> nat \<Rightarrow> real \<Rightarrow> bool" where
  "in_bin edges i x =
     (edges ! i \<le> x \<and>
      (if i + 2 = length edges then x \<le> edges ! (i + 1) else x < edges ! (i + 1)))"

definition bin_edges :: "real list \<Rightarrow> nat \<Rightarrow> real list" where
  "bin_edges a bins =
     (let (first_edge, last_edge) = outer_edges a in linspace first_edge last_edge (bins + 1))"

definition bin_counts :: "real list \<Rightarrow> nat \<Rightarrow> nat list" where
  "bin_counts a bins = map (\<lambda>i. length (filter (in_bin (bin_edges a bins) i) a)) [0..<bins]"

definition np_histogram :: "real list \<Rightarrow> nat \<Rightarrow> real list \<times> real list" where
  "np_histogram a bins =
     (let n = bin_counts a bins;
          db = map (\<lambda>i. bin_edges a bins ! (i + 1) - bin_edges a bins ! i) [0..<bins]
      in (map (\<lambda>i. real (n ! i) / (db ! i) / real (sum_list n)) [0..<bins], bin_edges a bins))"

subsection \<open>Relative minima: \<^verbatim>\<open>scipy.signal.argrelmin(data, order)\<close>\<close>

text \<open>
  scipy compares every entry with the entries \<open>shift\<close> positions to its right and to its
  left, for \<open>shift = 1 .. order\<close>, reading positions outside the array with
  \<^verbatim>\<open>mode='clip'\<close> (the first or last entry), and returns the positions where every
  comparison holds. An order below 1 raises ValueError.
\<close>

definition take_clip :: "real list \<Rightarrow> int \<Rightarrow> real" where
  "take_clip data i = data ! nat (max 0 (min (int (length data) - 1) i))"

definition boolrelextrema :: "real list \<Rightarrow> (real \<Rightarrow> real \<Rightarrow> bool) \<Rightarrow> nat \<Rightarrow> bool list" where
  "boolrelextrema data comparator order =
     map (\<lambda>i. \<forall>shift \<in> set [1..<order + 1].
                 comparator (data ! i) (take_clip data (int i + int shift)) \<and>
                 comparator (data ! i) (take_clip data (int i - int shift)))
         [0..<length data]"

definition nonzero :: "bool list \<Rightarrow> nat list" where
  "nonzero results = filter (\<lambda>i. results ! i) [0..<length results]"

definition argrelmin :: "real list \<Rightarrow> nat \<Rightarrow> error + nat list" where
  "argrelmin data order =
     (if order < 1 then Inl ValueError else Inr (nonzero (boolrelextrema data (<) order)))"

text \<open>The candidate thresholds of one score column: the value of \<^verbatim>\<open>x_min_B[0]\<close>
  and \<^verbatim>\<open>x_min_Mono[0]\<close> in \<^verbatim>\<open>plot_score_distributions\<close> (the notebook passes
  \<open>order = 3\<close>), the ThresholdSelector of the specification.\<close>

definition x_min :: "real list \<Rightarrow> nat \<Rightarrow> error + nat list" where
  "x_min scores order = argrelmin (fst (np_histogram scores 100)) order"

text \<open>
  \<^verbatim>\<open>plot_score_distributions\<close> as a whole. Each loop \<^verbatim>\<open>for e in x_min[0]\<close> draws one
  vertical line per minimum and leaves the loop variable \<open>e\<close> at the last minimum; an
  empty loop leaves \<open>e\<close> as it was. The statement after each loop,
  \<^verbatim>\<open>plt.axvline(e, ..., label=...)\<close>, reads \<open>e\<close> and draws one more line there; reading
  \<open>e\<close> while it is unbound raises UnboundLocalError. The result is the positions of
  the lines drawn for the B scores and for the Mono scores.
\<close>

definition for_e :: "nat list \<Rightarrow> nat option \<Rightarrow> nat option" where
  "for_e xs e = fold (\<lambda>x _. Some x) xs e"

definition plot_score_distributions :: "real list \<Rightarrow> real list \<Rightarrow> error + (nat list \<times> nat list)" where
  "plot_score_distributions scores_B scores_Mono =
     (case x_min scores_B 3 of Inl err \<Rightarrow> Inl err | Inr x_min_B \<Rightarrow>
     (case for_e x_min_B None of None \<Rightarrow> Inl UnboundLocalError | Some e \<Rightarrow>
     (case x_min scores_Mono 3 of Inl err \<Rightarrow> Inl err | Inr x_min_Mono \<Rightarrow>
     (case for_e x_min_Mono (Some e) of None \<Rightarrow> Inl UnboundLocalError | Some e' \<Rightarrow>
        Inr (x_min_B @ [e], x_min_Mono @ [e'])))))"

text \<open>The neighbourhood rule in the words of the specification: the height of bin \<open>i\<close>
  is strictly below the height of every bin at most \<open>order\<close> positions away on either
  side.\<close>

definition strict_local_min :: "nat \<Rightarrow> real list \<Rightarrow> nat \<Rightarrow> bool" where
  "strict_local_min order h i =
     (i < length h \<and>
      (\<forall>j \<in> set [i - order..<i] \<union> set [Suc i..<min (length h) (Suc (i + order))].
          h ! i < h ! j))"

text \<open>\<^verbatim>\<open>get_score_threshs\<close>: both histograms are built again and the selected indices
  are looked up in their edge arrays.\<close>

definition get_score_threshs :: "int list \<Rightarrow> real list \<Rightarrow> real list \<Rightarrow> error + (real \<times> real)" where
  "get_score_threshs selected_thresh scores_B scores_Mono =
     (let hist_one = np_histogram scores_B 100;
          hist_two = np_histogram scores_Mono 100
      in case getitem selected_thresh 0 of Inl e \<Rightarrow> Inl e | Inr i0 \<Rightarrow>
         (case getitem (snd hist_one) i0 of Inl e \<Rightarrow> Inl e | Inr thresh_one \<Rightarrow>
         (case getitem selected_thresh 1 of Inl e \<Rightarrow> Inl e | Inr i1 \<Rightarrow>
         (case getitem (snd hist_two) i1 of Inl e \<Rightarrow> Inl e | Inr thresh_two \<Rightarrow>
            Inr (thresh_one, thresh_two)))))"

subsection \<open>Policy B: two signatures and a remaining class\<close>

text \<open>The label of the remaining class is the literal \<^verbatim>\<open>'NK'\<close> of the notebook.\<close>

definition rest_label :: string where
  "rest_label = ''NK''"

text \<open>\<^verbatim>\<open>series.loc[mask] = value\<close>.\<close>

definition loc_assign :: "bool list \<Rightarrow> 'a \<Rightarrow> 'a list \<Rightarrow> 'a list" where
  "loc_assign cond v series = map (\<lambda>(m, x). if m then v else x) (zip cond series)"

text \<open>The labeling part of the loop that writes \<^verbatim>\<open>{method}_scores_HL_2sigs\<close>, for given
  thresholds, and the whole loop body, which first converts the selected indices.\<close>

definition label_2sigs :: "real \<Rightarrow> real \<Rightarrow> string \<Rightarrow> string \<Rightarrow> 'e anndata \<Rightarrow> error + string list" where
  "label_2sigs B_thresh M_thresh cB cM adata =
     (let B_scores = obs_col adata cB; M_scores = obs_col adata cM
      in case scores_HL [cB, cM] adata of
           Inl e \<Rightarrow> Inl e
         | Inr curr_val \<Rightarrow>
             Inr (loc_assign (map (\<lambda>(b, m). b < B_thresh \<and> m < M_thresh) (zip B_scores M_scores))
                    rest_label curr_val))"

definition scores_HL_2sigs :: "int list \<Rightarrow> string \<Rightarrow> string \<Rightarrow> 'e anndata \<Rightarrow> error + string list" where
  "scores_HL_2sigs threshs cB cM adata =
     (case get_score_threshs threshs (obs_col adata cB) (obs_col adata cM) of
        Inl e \<Rightarrow> Inl e
      | Inr (B_thresh, M_thresh) \<Rightarrow> label_2sigs B_thresh M_thresh cB cM adata)"

subsection \<open>Evaluation: \<^verbatim>\<open>f1_score(gt, pred, average='weighted')\<close>\<close>

text \<open>
  scikit-learn takes the labels that occur in either vector, computes for each label the
  true positives, the number of predictions and the number of true instances (the
  support), sets a precision or recall with a zero denominator to 0 (with a warning, no
  exception), and averages the per-label F1 with the supports as weights; when all
  weights are zero the result is 0. Vectors of different length raise ValueError.
\<close>

definition unique_labels :: "string list \<Rightarrow> string list \<Rightarrow> string list" where
  "unique_labels y_true y_pred = remdups (y_true @ y_pred)"

definition tp_sum :: "string list \<Rightarrow> string list \<Rightarrow> string \<Rightarrow> nat" where
  "tp_sum y_true y_pred c = length (filter (\<lambda>(t, p). t = c \<and> p = c) (zip y_true y_pred))"

definition pred_sum :: "string list \<Rightarrow> string \<Rightarrow> nat" where
  "pred_sum y_pred c = count_list y_pred c"

definition true_sum :: "string list \<Rightarrow> string \<Rightarrow> nat" where
  "true_sum y_true c = count_list y_true c"

definition prf_divide :: "real \<Rightarrow> real \<Rightarrow> real" where
  "prf_divide numerator denominator = (if denominator = 0 then 0 else numerator / denominator)"

definition f_score :: "string list \<Rightarrow> string list \<Rightarrow> string \<Rightarrow> real" where
  "f_score y_true y_pred c =
     (let precision = prf_divide (real (tp_sum y_true y_pred c)) (real (pred_sum y_pred c));
          recall = prf_divide (real (tp_sum y_true y_pred c)) (real (true_sum y_true c));
          denom = precision + recall
      in 2 * precision * recall / (if denom = 0 then 1 else denom))"

definition f1_score :: "string list \<Rightarrow> string list \<Rightarrow> error + real" where
  "f1_score y_true y_pred =
     (if length y_true \<noteq> length y_pred then Inl ValueError
      else let labels = unique_labels y_true y_pred;
               weights = map (true_sum y_true) labels
           in if sum_list weights = 0 then Inr 0
              else Inr ((\<Sum>c\<leftarrow>labels. f_score y_true y_pred c * real (true_sum y_true c))
                        / real (sum_list weights)))"

subsection \<open>Literal inputs\<close>

text \<open>Four cells scored by one method (\<^verbatim>\<open>ANS\<close>) for the signatures \<^verbatim>\<open>B\<close> and
  \<^verbatim>\<open>Mono\<close>: \<^verbatim>\<open>B = [0.9, 0.1, 0.05, 0.8]\<close>, \<^verbatim>\<open>Mono = [0.1, 0.9, 0.05, 0.75]\<close>.\<close>

definition adata4 :: "nat anndata" where
  "adata4 = \<lparr>obs_names = [0, 1, 2, 3],
     obs = (\<lambda>c e. if c = ''ANS_B'' \<and> e < 4 then [0.9, 0.1, 0.05, 0.8] ! e
                  else if c = ''ANS_Mono'' \<and> e < 4 then [0.1, 0.9, 0.05, 0.75] ! e else 0)\<rparr>"

text \<open>A score column with one value in the lowest bin, two values in each of the next
  three bins and one value in the highest bin.\<close>

definition scores8 :: "real list" where
  "scores8 = [0, 3 / 200, 3 / 200, 5 / 200, 5 / 200, 7 / 200, 7 / 200, 1]"

text \<open>A score column with two values only.\<close>

definition scores2 :: "real list" where
  "scores2 = [0, 1]"

section \<open>Properties of the primitives\<close>

lemma rpartition_last:
  assumes "sep \<notin> set t"
  shows "rpartition sep (h @ sep # t) = Some (h, t)"
proof -
  have all: "\<forall>c \<in> set (rev t). c \<noteq> sep" using assms by auto
  have tw: "takeWhile (\<lambda>c. c \<noteq> sep) (rev t @ sep # rev h) = rev t"
    using all by (simp add: takeWhile_tail)
  have dw: "dropWhile (\<lambda>c. c \<noteq> sep) (rev t @ sep # rev h) = sep # rev h"
    using all by (simp add: dropWhile_append3)
  show ?thesis by (simp add: rpartition_def tw dw)
qed

lemma argmax_from_first_max:
  assumes "length pre = i" "b < i" "pre ! b = bv"
    and "\<forall>j<i. pre ! j \<le> bv" and "\<forall>j<b. pre ! j < bv"
  shows "argmax_from b bv i xs < i + length xs
       \<and> (\<forall>j < i + length xs. (pre @ xs) ! j \<le> (pre @ xs) ! argmax_from b bv i xs)
       \<and> (\<forall>j < argmax_from b bv i xs. (pre @ xs) ! j < (pre @ xs) ! argmax_from b bv i xs)"
  using assms
proof (induction xs arbitrary: pre b bv i)
  case Nil
  then show ?case by simp
next
  case (Cons x xs)
  let ?pre = "pre @ [x]"
  have len: "length ?pre = Suc i" using Cons.prems by simp
  show ?case
  proof (cases "bv < x")
    case True
    have a: "i < Suc i" by simp
    have b: "?pre ! i = x" using Cons.prems(1) by (simp add: nth_append)
    have c: "\<forall>j<Suc i. ?pre ! j \<le> x"
      using Cons.prems True by (auto simp: nth_append less_Suc_eq)
    have d: "\<forall>j<i. ?pre ! j < x"
      using Cons.prems True by (auto simp: nth_append)
    from Cons.IH[OF len a b c d] True show ?thesis by simp
  next
    case False
    have a: "b < Suc i" using Cons.prems by simp
    have b: "?pre ! b = bv" using Cons.prems by (simp add: nth_append)
    have c: "\<forall>j<Suc i. ?pre ! j \<le> bv"
      using Cons.prems False by (auto simp: nth_append less_Suc_eq)
    have d: "\<forall>j<b. ?pre ! j < bv"
      using Cons.prems by (auto simp: nth_append)
    from Cons.IH[OF len a b c d] False show ?thesis by simp
  qed
qed

lemma argmax_first_max:
  assumes "row \<noteq> []"
  shows "\<exists>k. argmax row = Inr k \<and> first_max row k"
proof -
  obtain x xs where row: "row = x # xs" using assms by (cases row) auto
  have "argmax_from 0 x 1 xs < 1 + length xs
       \<and> (\<forall>j < 1 + length xs. ([x] @ xs) ! j \<le> ([x] @ xs) ! argmax_from 0 x 1 xs)
       \<and> (\<forall>j < argmax_from 0 x 1 xs. ([x] @ xs) ! j < ([x] @ xs) ! argmax_from 0 x 1 xs)"
    by (rule argmax_from_first_max) auto
  then show ?thesis by (simp add: row first_max_def)
qed

lemma apply_series_all_Inr:
  assumes "\<forall>x \<in> set xs. f x = Inr (g x)"
  shows "apply_series f xs = Inr (map g xs)"
  using assms by (induction xs) auto

lemma rsplit_score_col:
  assumes "CHR ''_'' \<notin> set sig"
  shows "getitem (rsplit CHR ''_'' 1 (score_col method sig)) 1 = Inr sig"
proof -
  have "rpartition CHR ''_'' (method @ CHR ''_'' # sig) = Some (method, sig)"
    using assms by (rule rpartition_last)
  then have "rsplit CHR ''_'' (Suc 0) (score_col method sig) = [method, sig]"
    by (simp add: score_col_def)
  then show ?thesis by (simp add: getitem_def)
qed

lemma rsplit_gmm_col:
  assumes "CHR ''_'' \<notin> set sig" and "CHR ''_'' \<notin> set scen"
  shows "getitem (rsplit CHR ''_'' 3 (gmm_col (score_col method sig) scen)) 1 = Inr sig"
proof -
  have full: "gmm_col (score_col method sig) scen
      = (method @ CHR ''_'' # sig @ CHR ''_'' # ''gmm'') @ CHR ''_'' # scen"
    by (simp add: gmm_col_def score_col_def)
  have p1: "rpartition CHR ''_'' ((method @ CHR ''_'' # sig @ CHR ''_'' # ''gmm'') @ CHR ''_'' # scen)
      = Some (method @ CHR ''_'' # sig @ CHR ''_'' # ''gmm'', scen)"
    using assms(2) by (rule rpartition_last)
  have p2: "rpartition CHR ''_'' ((method @ CHR ''_'' # sig) @ CHR ''_'' # ''gmm'')
      = Some (method @ CHR ''_'' # sig, ''gmm'')"
    by (rule rpartition_last) simp
  have p3: "rpartition CHR ''_'' (method @ CHR ''_'' # sig) = Some (method, sig)"
    using assms(1) by (rule rpartition_last)
  have "rsplit CHR ''_'' (Suc (Suc (Suc 0))) (gmm_col (score_col method sig) scen)
      = [method, sig, ''gmm'', scen]"
    using p1 p2 p3 by (simp add: full)
  then show ?thesis by (simp add: getitem_def eval_nat_numeral)
qed

section \<open>Policy A\<close>

lemma apply_series_map_Inr:
  assumes "\<forall>y \<in> set ys. f (h y) = Inr (g y)"
  shows "apply_series f (map h ys) = Inr (map g ys)"
  using assms by (induction ys) auto

lemma argmax_pos_first_max:
  assumes "row \<noteq> []"
  shows "argmax row = Inr (argmax_pos row) \<and> first_max row (argmax_pos row)"
  using argmax_first_max[OF assms] by (auto simp: argmax_pos_def)

lemma idxmax_columns_names:
  assumes "sigs \<noteq> []"
  shows "idxmax_columns (map name sigs) (obs_cols adata (map name sigs))
       = Inr (map (\<lambda>e. name (sigs ! argmax_pos (map (\<lambda>s. obs adata (name s) e) sigs)))
                (obs_names adata))"
proof -
  have row: "idxmax_row (map name sigs) (map (\<lambda>s. obs adata (name s) e) sigs)
        = Inr (name (sigs ! argmax_pos (map (\<lambda>s. obs adata (name s) e) sigs)))" for e
  proof -
    let ?row = "map (\<lambda>s. obs adata (name s) e) sigs"
    have ne: "?row \<noteq> []" using assms by simp
    have "first_max ?row (argmax_pos ?row)" using argmax_pos_first_max[OF ne] by simp
    then have "argmax_pos ?row < length sigs" by (simp add: first_max_def)
    then show ?thesis using argmax_pos_first_max[OF ne] by (simp add: idxmax_row_def)
  qed
  have "obs_cols adata (map name sigs)
        = map (\<lambda>e. map (\<lambda>s. obs adata (name s) e) sigs) (obs_names adata)"
    by (simp add: obs_cols_def comp_def)
  then show ?thesis
    using assms by (simp add: idxmax_columns_def apply_series_map_Inr row)
qed

lemma HL_idxmax_labels:
  assumes "sigs \<noteq> []"
    and "\<forall>s \<in> set sigs. getitem (rsplit CHR ''_'' n (name s)) 1 = Inr s"
  shows "HL_idxmax n (map name sigs) adata
       = Inr (map (\<lambda>e. sigs ! argmax_pos (map (\<lambda>s. obs adata (name s) e) sigs))
                (obs_names adata))"
proof -
  have inb: "sigs ! argmax_pos (map (\<lambda>s. obs adata (name s) e) sigs) \<in> set sigs" for e
  proof -
    let ?row = "map (\<lambda>s. obs adata (name s) e) sigs"
    have ne: "?row \<noteq> []" using assms(1) by simp
    have "first_max ?row (argmax_pos ?row)" using argmax_pos_first_max[OF ne] by simp
    then have "argmax_pos ?row < length sigs" by (simp add: first_max_def)
    then show ?thesis by simp
  qed
  have "apply_series (\<lambda>x. getitem (rsplit CHR ''_'' n x) 1)
          (map (\<lambda>e. name (sigs ! argmax_pos (map (\<lambda>s. obs adata (name s) e) sigs)))
             (obs_names adata))
        = Inr (map (\<lambda>e. sigs ! argmax_pos (map (\<lambda>s. obs adata (name s) e) sigs))
                 (obs_names adata))"
    by (rule apply_series_map_Inr) (use assms(2) inb in auto)
  then show ?thesis
    by (simp add: HL_idxmax_def idxmax_columns_names[OF assms(1)])
qed

lemma scores_HL_labels:
  assumes "sigs \<noteq> []" and "\<forall>s \<in> set sigs. CHR ''_'' \<notin> set s"
  shows "scores_HL (map (score_col method) sigs) adata
       = Inr (map (\<lambda>e. sigs ! argmax_pos (map (\<lambda>s. obs adata (score_col method s) e) sigs))
                (obs_names adata))"
  unfolding scores_HL_def
  by (rule HL_idxmax_labels) (use assms rsplit_score_col in auto)

lemma probabilities_HL_labels:
  assumes "sigs \<noteq> []" and "\<forall>s \<in> set sigs. CHR ''_'' \<notin> set s" and "CHR ''_'' \<notin> set scen"
  shows "probabilities_HL (map (\<lambda>s. gmm_col (score_col method s) scen) sigs) adata
       = Inr (map (\<lambda>e. sigs ! argmax_pos
                      (map (\<lambda>s. obs adata (gmm_col (score_col method s) scen) e) sigs))
                (obs_names adata))"
  unfolding probabilities_HL_def
  by (rule HL_idxmax_labels) (use assms rsplit_gmm_col in auto)

text \<open>C1. Policy A, on score columns and on probability columns alike: the call returns one
  label per cell, and the label of every cell is the signature whose column holds the
  largest value of that cell's row; among tied columns it is the one listed first.\<close>

theorem policy_A_label_is_first_max:
  assumes "sigs \<noteq> []" and "\<forall>s \<in> set sigs. CHR ''_'' \<notin> set s" and "CHR ''_'' \<notin> set scen"
  shows "(\<exists>labs. scores_HL (map (score_col method) sigs) adata = Inr labs
            \<and> length labs = length (obs_names adata)
            \<and> (\<forall>i \<in> {..<length (obs_names adata)}. \<exists>k.
                  first_max (map (\<lambda>s. obs adata (score_col method s) (obs_names adata ! i)) sigs) k
                  \<and> labs ! i = sigs ! k))
       \<and> (\<exists>labs. probabilities_HL (map (\<lambda>s. gmm_col (score_col method s) scen) sigs) adata = Inr labs
            \<and> length labs = length (obs_names adata)
            \<and> (\<forall>i \<in> {..<length (obs_names adata)}. \<exists>k.
                  first_max (map (\<lambda>s. obs adata (gmm_col (score_col method s) scen)
                                        (obs_names adata ! i)) sigs) k
                  \<and> labs ! i = sigs ! k))"
proof (intro conjI)
  have fm: "first_max (map (\<lambda>s. obs adata (name s) e) sigs)
              (argmax_pos (map (\<lambda>s. obs adata (name s) e) sigs))" for name e
    using argmax_pos_first_max[of "map (\<lambda>s. obs adata (name s) e) sigs"] assms(1) by simp
  show "\<exists>labs. scores_HL (map (score_col method) sigs) adata = Inr labs
            \<and> length labs = length (obs_names adata)
            \<and> (\<forall>i \<in> {..<length (obs_names adata)}. \<exists>k.
                  first_max (map (\<lambda>s. obs adata (score_col method s) (obs_names adata ! i)) sigs) k
                  \<and> labs ! i = sigs ! k)"
    unfolding scores_HL_labels[OF assms(1,2)]
    using fm[of "score_col method"] by auto
  show "\<exists>labs. probabilities_HL (map (\<lambda>s. gmm_col (score_col method s) scen) sigs) adata = Inr labs
            \<and> length labs = length (obs_names adata)
            \<and> (\<forall>i \<in> {..<length (obs_names adata)}. \<exists>k.
                  first_max (map (\<lambda>s. obs adata (gmm_col (score_col method s) scen)
                                        (obs_names adata ! i)) sigs) k
                  \<and> labs ! i = sigs ! k)"
    unfolding probabilities_HL_labels[OF assms]
    using fm[of "\<lambda>s. gmm_col (score_col method s) scen"] by auto
qed

text \<open>The argmax rule at the literal table.\<close>

theorem policy_A_label_is_first_max_witness:
  "[''B'', ''Mono''] \<noteq> [] \<and> CHR ''_'' \<notin> set ''B'' \<and> CHR ''_'' \<notin> set ''Mono''
   \<and> CHR ''_'' \<notin> set ''3sigs''
   \<and> (\<exists>labs. scores_HL (map (score_col ''ANS'') [''B'', ''Mono'']) adata4 = Inr labs
            \<and> length labs = length (obs_names adata4)
            \<and> (\<forall>i \<in> {..<length (obs_names adata4)}. \<exists>k.
                  first_max (map (\<lambda>s. obs adata4 (score_col ''ANS'' s) (obs_names adata4 ! i))
                               [''B'', ''Mono'']) k
                  \<and> labs ! i = [''B'', ''Mono''] ! k))"
proof -
  have h1: "[''B'', ''Mono''] \<noteq> []" by simp
  have h2: "\<forall>s \<in> set [''B'', ''Mono'']. CHR ''_'' \<notin> set s" by simp
  have h3: "CHR ''_'' \<notin> set ''3sigs''" by simp
  from policy_A_label_is_first_max[OF h1 h2 h3, of "''ANS''" adata4] h1 h3
  show ?thesis by simp
qed

section \<open>Policy B\<close>

lemma apply_series_length:
  "apply_series f xs = Inr ys \<Longrightarrow> length ys = length xs"
  by (induction xs arbitrary: ys) (auto split: sum.splits)

lemma HL_idxmax_length:
  assumes "HL_idxmax n cols adata = Inr labs"
  shows "length labs = length (obs_names adata)"
proof -
  from assms obtain cval where c1: "idxmax_columns cols (obs_cols adata cols) = Inr cval"
    and c2: "apply_series (\<lambda>x. getitem (rsplit CHR ''_'' n x) 1) cval = Inr labs"
    by (auto simp: HL_idxmax_def split: sum.splits)
  from c1 have "apply_series (idxmax_row cols) (obs_cols adata cols) = Inr cval"
    by (auto simp: idxmax_columns_def split: if_splits)
  then have "length cval = length (obs_names adata)"
    by (simp add: apply_series_length obs_cols_def)
  with c2 show ?thesis by (simp add: apply_series_length)
qed

lemma loc_assign_nth:
  assumes "i < length cond" and "i < length series"
  shows "loc_assign cond v series ! i = (if cond ! i then v else series ! i)"
  using assms by (simp add: loc_assign_def)

lemma label_2sigs_char:
  assumes "scores_HL [cB, cM] adata = Inr cval"
  shows "\<exists>labs. label_2sigs tb tm cB cM adata = Inr labs
      \<and> length labs = length (obs_names adata)
      \<and> (\<forall>i < length (obs_names adata).
           labs ! i = (if obs adata cB (obs_names adata ! i) < tb
                          \<and> obs adata cM (obs_names adata ! i) < tm
                       then rest_label else cval ! i))"
proof -
  have len: "length cval = length (obs_names adata)"
    using assms HL_idxmax_length by (simp add: scores_HL_def)
  let ?cond = "map (\<lambda>(b, m). b < tb \<and> m < tm) (zip (obs_col adata cB) (obs_col adata cM))"
  have eq: "label_2sigs tb tm cB cM adata = Inr (loc_assign ?cond rest_label cval)"
    using assms by (simp add: label_2sigs_def)
  have lc: "length ?cond = length (obs_names adata)" by (simp add: obs_col_def)
  have "length (loc_assign ?cond rest_label cval) = length (obs_names adata)"
    using len lc by (simp add: loc_assign_def)
  moreover have "\<forall>i < length (obs_names adata).
       loc_assign ?cond rest_label cval ! i
         = (if obs adata cB (obs_names adata ! i) < tb \<and> obs adata cM (obs_names adata ! i) < tm
            then rest_label else cval ! i)"
    using len lc by (simp add: loc_assign_nth obs_col_def)
  ultimately show ?thesis using eq by simp
qed

text \<open>C2. Policy B on raw scores: a cell gets the rest label exactly when its B score is
  strictly below the B threshold and its Mono score is strictly below the Mono threshold;
  every other cell keeps its argmax label, in particular a cell whose score equals a
  threshold.\<close>

theorem policy_B_rest_iff_below_all_thresholds:
  assumes "scores_HL [cB, cM] adata = Inr argmax_labels"
  shows "\<exists>labs. label_2sigs B_thresh M_thresh cB cM adata = Inr labs
      \<and> length labs = length (obs_names adata)
      \<and> (\<forall>i \<in> {..<length (obs_names adata)}.
           labs ! i = (if obs adata cB (obs_names adata ! i) < B_thresh
                          \<and> obs adata cM (obs_names adata ! i) < M_thresh
                       then rest_label else argmax_labels ! i)
           \<and> (obs adata cB (obs_names adata ! i) = B_thresh
                \<or> obs adata cM (obs_names adata ! i) = M_thresh
              \<longrightarrow> labs ! i = argmax_labels ! i))"
proof -
  from label_2sigs_char[OF assms, of B_thresh M_thresh]
  obtain labs where l: "label_2sigs B_thresh M_thresh cB cM adata = Inr labs"
    "length labs = length (obs_names adata)"
    "\<forall>i < length (obs_names adata).
           labs ! i = (if obs adata cB (obs_names adata ! i) < B_thresh
                          \<and> obs adata cM (obs_names adata ! i) < M_thresh
                       then rest_label else argmax_labels ! i)"
    by blast
  from l(3) have "\<forall>i \<in> {..<length (obs_names adata)}.
           labs ! i = (if obs adata cB (obs_names adata ! i) < B_thresh
                          \<and> obs adata cM (obs_names adata ! i) < M_thresh
                       then rest_label else argmax_labels ! i)
           \<and> (obs adata cB (obs_names adata ! i) = B_thresh
                \<or> obs adata cM (obs_names adata ! i) = M_thresh
              \<longrightarrow> labs ! i = argmax_labels ! i)"
    by auto
  with l(1,2) show ?thesis by blast
qed

lemma adata4_argmax: "scores_HL [''ANS_B'', ''ANS_Mono''] adata4 = Inr [''B'', ''Mono'', ''B'', ''B'']"
  by (simp add: scores_HL_def HL_idxmax_def idxmax_columns_def obs_cols_def adata4_def
      idxmax_row_def getitem_def rpartition_def)

text \<open>C3. The literal scenario: with both thresholds at 0.2 the four cells are labeled
  B, Mono, rest, B; the fourth cell is above both thresholds and goes to B because
  0.8 exceeds 0.75.\<close>

theorem literal_scenario_labels:
  "label_2sigs 0.2 0.2 ''ANS_B'' ''ANS_Mono'' adata4 = Inr [''B'', ''Mono'', rest_label, ''B'']"
proof -
  have B: "obs_col adata4 ''ANS_B'' = [0.9, 0.1, 0.05, 0.8]"
    by (simp add: obs_col_def adata4_def)
  have M: "obs_col adata4 ''ANS_Mono'' = [0.1, 0.9, 0.05, 0.75]"
    by (simp add: obs_col_def adata4_def)
  show ?thesis
    by (simp add: label_2sigs_def adata4_argmax B M loc_assign_def)
qed

text \<open>The rule at the literal table, with the B threshold placed on the B score of the
  third cell: that cell keeps its argmax label.\<close>

theorem policy_B_rest_iff_below_all_thresholds_witness:
  "scores_HL [''ANS_B'', ''ANS_Mono''] adata4 = Inr [''B'', ''Mono'', ''B'', ''B'']
   \<and> (\<exists>labs. label_2sigs 0.05 0.2 ''ANS_B'' ''ANS_Mono'' adata4 = Inr labs
      \<and> length labs = length (obs_names adata4)
      \<and> (\<forall>i \<in> {..<length (obs_names adata4)}.
           labs ! i = (if obs adata4 ''ANS_B'' (obs_names adata4 ! i) < 0.05
                          \<and> obs adata4 ''ANS_Mono'' (obs_names adata4 ! i) < 0.2
                       then rest_label else [''B'', ''Mono'', ''B'', ''B''] ! i)
           \<and> (obs adata4 ''ANS_B'' (obs_names adata4 ! i) = 0.05
                \<or> obs adata4 ''ANS_Mono'' (obs_names adata4 ! i) = 0.2
              \<longrightarrow> labs ! i = [''B'', ''Mono'', ''B'', ''B''] ! i)))"
proof -
  have h: "scores_HL [''ANS_B'', ''ANS_Mono''] adata4 = Inr [''B'', ''Mono'', ''B'', ''B'']"
    by (simp add: scores_HL_def HL_idxmax_def idxmax_columns_def obs_cols_def adata4_def
      idxmax_row_def getitem_def rpartition_def)
  from policy_B_rest_iff_below_all_thresholds[OF h, of "0.05" "0.2"] h
  show ?thesis by (intro conjI)
qed

lemma linspace_length: "length (linspace start stop (Suc bins)) = Suc bins"
  by (simp add: linspace_def)

lemma np_histogram_lengths:
  "length (fst (np_histogram a bins)) = bins" "length (snd (np_histogram a bins)) = Suc bins"
  by (simp_all add: np_histogram_def bin_edges_def linspace_def Let_def split: prod.splits)

lemma getitem_nat:
  assumes "k < length xs"
  shows "getitem xs (int k) = Inr (xs ! k)"
  using assms by (simp add: getitem_def)

lemma get_score_threshs_nat:
  assumes "i0 \<le> 100" and "i1 \<le> 100"
  shows "get_score_threshs [int i0, int i1] scores_B scores_Mono
       = Inr (snd (np_histogram scores_B 100) ! i0, snd (np_histogram scores_Mono 100) ! i1)"
proof -
  have a: "getitem [int i0, int i1] 0 = Inr (int i0)" by (simp add: getitem_def)
  have b: "getitem [int i0, int i1] 1 = Inr (int i1)" by (simp add: getitem_def)
  have c: "getitem (snd (np_histogram scores_B 100)) (int i0) = Inr (snd (np_histogram scores_B 100) ! i0)"
    by (rule getitem_nat) (use assms(1) in \<open>simp add: np_histogram_lengths\<close>)
  have d: "getitem (snd (np_histogram scores_Mono 100)) (int i1) = Inr (snd (np_histogram scores_Mono 100) ! i1)"
    by (rule getitem_nat) (use assms(2) in \<open>simp add: np_histogram_lengths\<close>)
  show ?thesis by (simp add: get_score_threshs_def a b c d)
qed

lemma scores_HL_pair:
  assumes "CHR ''_'' \<notin> set sB" and "CHR ''_'' \<notin> set sM"
  shows "scores_HL [score_col method sB, score_col method sM] adata
       = Inr (map (\<lambda>e. [sB, sM] ! argmax_pos (map (\<lambda>s. obs adata (score_col method s) e) [sB, sM]))
                (obs_names adata))"
  using scores_HL_labels[of "[sB, sM]" "method" adata] assms by simp

lemma pair_label_cases:
  "[sB, sM] ! argmax_pos [x, y] = sB \<or> [sB, sM] ! argmax_pos [x, y] = sM"
  by (simp add: argmax_pos_def)

text \<open>C9. Every label column has exactly one label per cell, and every label is one of the
  signature names of the columns it was derived from or, under Policy B, the rest label:
  Policy A on scores, Policy A on probabilities, and Policy B on scores for any pair of
  thresholds.\<close>

theorem labels_drawn_from_signatures_or_rest:
  assumes "sigs \<noteq> []" and "\<forall>s \<in> set sigs. CHR ''_'' \<notin> set s" and "CHR ''_'' \<notin> set scen"
    and "CHR ''_'' \<notin> set sB" and "CHR ''_'' \<notin> set sM"
  shows "(\<exists>labs. scores_HL (map (score_col method) sigs) adata = Inr labs
            \<and> length labs = length (obs_names adata) \<and> set labs \<subseteq> set sigs)
       \<and> (\<exists>labs. probabilities_HL (map (\<lambda>s. gmm_col (score_col method s) scen) sigs) adata = Inr labs
            \<and> length labs = length (obs_names adata) \<and> set labs \<subseteq> set sigs)
       \<and> (\<exists>labs. label_2sigs B_thresh M_thresh (score_col method sB) (score_col method sM) adata
                   = Inr labs
            \<and> length labs = length (obs_names adata) \<and> set labs \<subseteq> {sB, sM, rest_label})"
proof (intro conjI)
  have pos: "argmax_pos (map (\<lambda>s. obs adata (name s) e) sigs) < length sigs" for name e
    using argmax_pos_first_max[of "map (\<lambda>s. obs adata (name s) e) sigs"] assms(1)
    by (simp add: first_max_def)
  show "\<exists>labs. scores_HL (map (score_col method) sigs) adata = Inr labs
            \<and> length labs = length (obs_names adata) \<and> set labs \<subseteq> set sigs"
    unfolding scores_HL_labels[OF assms(1,2)] using pos by auto
  show "\<exists>labs. probabilities_HL (map (\<lambda>s. gmm_col (score_col method s) scen) sigs) adata = Inr labs
            \<and> length labs = length (obs_names adata) \<and> set labs \<subseteq> set sigs"
    unfolding probabilities_HL_labels[OF assms(1,2,3)] using pos by auto
  let ?cval = "map (\<lambda>e. [sB, sM] ! argmax_pos (map (\<lambda>s. obs adata (score_col method s) e) [sB, sM]))
                (obs_names adata)"
  have arg: "scores_HL [score_col method sB, score_col method sM] adata = Inr ?cval"
    using scores_HL_pair[OF assms(4,5)] .
  from label_2sigs_char[OF arg, of B_thresh M_thresh]
  obtain labs where l: "label_2sigs B_thresh M_thresh (score_col method sB) (score_col method sM) adata = Inr labs"
    "length labs = length (obs_names adata)"
    "\<forall>i < length (obs_names adata).
        labs ! i = (if obs adata (score_col method sB) (obs_names adata ! i) < B_thresh
                       \<and> obs adata (score_col method sM) (obs_names adata ! i) < M_thresh
                    then rest_label else ?cval ! i)"
    by blast
  have "set labs \<subseteq> {sB, sM, rest_label}"
  proof
    fix x assume "x \<in> set labs"
    then obtain i where i: "i < length labs" "labs ! i = x" by (auto simp: in_set_conv_nth)
    then have "x = rest_label \<or> x = ?cval ! i" using l(2,3) by (auto split: if_splits)
    moreover have "?cval ! i = sB \<or> ?cval ! i = sM"
      using i(1) l(2) pair_label_cases by simp
    ultimately show "x \<in> {sB, sM, rest_label}" by auto
  qed
  with l(1,2) show "\<exists>labs. label_2sigs B_thresh M_thresh (score_col method sB) (score_col method sM) adata
                   = Inr labs
            \<and> length labs = length (obs_names adata) \<and> set labs \<subseteq> {sB, sM, rest_label}"
    by blast
qed

text \<open>The label sets of the literal table.\<close>

theorem labels_drawn_from_signatures_or_rest_witness:
  "(\<exists>labs. scores_HL (map (score_col ''ANS'') [''B'', ''Mono'']) adata4 = Inr labs
            \<and> length labs = length (obs_names adata4) \<and> set labs \<subseteq> set [''B'', ''Mono''])
   \<and> (\<exists>labs. label_2sigs 0.2 0.2 (score_col ''ANS'' ''B'') (score_col ''ANS'' ''Mono'') adata4
                   = Inr labs
            \<and> length labs = length (obs_names adata4) \<and> set labs \<subseteq> {''B'', ''Mono'', rest_label})"
proof -
  have h1: "[''B'', ''Mono''] \<noteq> []" by simp
  have h2: "\<forall>s \<in> set [''B'', ''Mono'']. CHR ''_'' \<notin> set s" by simp
  have h3: "CHR ''_'' \<notin> set ''3sigs''" by simp
  have h4: "CHR ''_'' \<notin> set ''B''" by simp
  have h5: "CHR ''_'' \<notin> set ''Mono''" by simp
  from labels_drawn_from_signatures_or_rest[OF h1 h2 h3 h4 h5, of "''ANS''" adata4 "0.2" "0.2"]
  show ?thesis by blast
qed

section \<open>Histogram and relative minima\<close>

lemma outer_edges_lt: "fst (outer_edges a) < snd (outer_edges a)"
proof (cases "a = []")
  case True
  then show ?thesis by (simp add: outer_edges_def)
next
  case False
  then have "Min (set a) \<le> Max (set a)" by simp
  then have "Min (set a) \<noteq> Max (set a) \<Longrightarrow> Min (set a) < Max (set a)"
    by (rule order_neq_le_trans[rotated])
  then show ?thesis using False by (auto simp: outer_edges_def Let_def)
qed

lemma outer_edges_bounds:
  assumes "x \<in> set a"
  shows "fst (outer_edges a) \<le> x" and "x \<le> snd (outer_edges a)"
proof -
  have ne: "a \<noteq> []" using assms by auto
  have "Min (set a) \<le> x" "x \<le> Max (set a)" using assms by simp_all
  then show "fst (outer_edges a) \<le> x" and "x \<le> snd (outer_edges a)"
    using ne by (auto simp: outer_edges_def Let_def)
qed

lemma bin_edges_length: "length (bin_edges a bins) = Suc bins"
  by (simp add: bin_edges_def linspace_def split: prod.splits)

lemma bin_edges_nth:
  assumes "0 < bins" and "i \<le> bins"
  shows "bin_edges a bins ! i
       = fst (outer_edges a) + real i * (snd (outer_edges a) - fst (outer_edges a)) / real bins"
proof (cases "i < bins")
  case True
  then show ?thesis
    by (simp add: bin_edges_def linspace_def nth_append split: prod.splits)
next
  case False
  then have "i = bins" using assms by simp
  then show ?thesis using assms(1)
    by (simp add: bin_edges_def linspace_def nth_append split: prod.splits)
qed

lemma bin_width:
  assumes "i < bins"
  shows "bin_edges a bins ! Suc i - bin_edges a bins ! i
       = (snd (outer_edges a) - fst (outer_edges a)) / real bins"
proof -
  have b: "0 < bins" using assms by simp
  show ?thesis
    using assms by (simp add: bin_edges_nth[OF b] field_simps)
qed

lemma bin_width_pos:
  assumes "i < bins"
  shows "0 < bin_edges a bins ! Suc i - bin_edges a bins ! i"
  using assms outer_edges_lt[of a] by (simp add: bin_width)

lemma bin_counts_nth:
  assumes "i < bins"
  shows "bin_counts a bins ! i = length (filter (in_bin (bin_edges a bins) i) a)"
  using assms by (simp add: bin_counts_def)

lemma np_histogram_edges: "snd (np_histogram a bins) = bin_edges a bins"
  by (simp add: np_histogram_def Let_def)

lemma np_histogram_height:
  assumes "i < bins"
  shows "fst (np_histogram a bins) ! i
       = real (bin_counts a bins ! i)
           / ((snd (outer_edges a) - fst (outer_edges a)) / real bins)
           / real (sum_list (bin_counts a bins))"
  using assms by (simp add: np_histogram_def Let_def bin_width)

lemma in_some_bin:
  assumes "0 < bins" and "x \<in> set a"
  shows "\<exists>i<bins. in_bin (bin_edges a bins) i x"
proof -
  define lo where "lo = fst (outer_edges a)"
  define hi where "hi = snd (outer_edges a)"
  define w where "w = (hi - lo) / real bins"
  have w: "0 < w" using outer_edges_lt[of a] assms(1) by (simp add: w_def lo_def hi_def)
  have lo: "lo \<le> x" and hi: "x \<le> hi"
    using outer_edges_bounds[OF assms(2)] by (simp_all add: lo_def hi_def)
  have edge: "bin_edges a bins ! i = lo + real i * w" if "i \<le> bins" for i
    using bin_edges_nth[OF assms(1) that, of a] by (simp add: lo_def hi_def w_def)
  have top: "lo + real bins * w = hi" using assms(1) by (simp add: w_def)
  define t where "t = (x - lo) / w"
  have t0: "0 \<le> t" using lo w by (simp add: t_def)
  have xt: "x = lo + t * w" using w by (simp add: t_def)
  define k where "k = nat \<lfloor>t\<rfloor>"
  have k1: "real k \<le> t" using t0 by (simp add: k_def)
  have k2: "t < real k + 1" using t0 by (simp add: k_def)
  show ?thesis
  proof (cases "k < bins")
    case True
    have a: "bin_edges a bins ! k \<le> x"
      using k1 w True by (simp add: edge xt)
    have "lo + t * w < lo + (real k + 1) * w" using k2 w by simp
    then have b: "x < bin_edges a bins ! Suc k"
      using True by (simp add: edge xt algebra_simps)
    have "in_bin (bin_edges a bins) k x"
      using a b by (simp add: in_bin_def)
    with True show ?thesis by blast
  next
    case False
    then have "real bins \<le> t" using k1 by simp
    then have "real (bins - 1) * w \<le> t * w" using w assms(1) by simp
    then have a: "bin_edges a bins ! (bins - 1) \<le> x"
      by (simp add: edge xt)
    have b: "x \<le> bin_edges a bins ! bins" using hi top by (simp add: edge)
    have "in_bin (bin_edges a bins) (bins - 1) x"
      using a b assms(1) by (simp add: in_bin_def bin_edges_length)
    with assms(1) show ?thesis by (intro exI[of _ "bins - 1"]) simp
  qed
qed

lemma bin_counts_total_pos:
  assumes "0 < bins" and "a \<noteq> []"
  shows "0 < sum_list (bin_counts a bins)"
proof -
  obtain x where x: "x \<in> set a" using assms(2) by (cases a) auto
  from in_some_bin[OF assms(1) x] obtain i where i: "i < bins" "in_bin (bin_edges a bins) i x"
    by blast
  have "x \<in> set (filter (in_bin (bin_edges a bins) i) a)" using x i(2) by simp
  then have "0 < length (filter (in_bin (bin_edges a bins) i) a)"
    by (rule length_pos_if_in_set)
  then have "0 < bin_counts a bins ! i" using i(1) by (simp add: bin_counts_nth)
  moreover have "bin_counts a bins ! i \<in> set (bin_counts a bins)"
    by (rule nth_mem) (simp add: bin_counts_def i(1))
  ultimately show ?thesis
    using member_le_sum_list[of "bin_counts a bins ! i" "bin_counts a bins"] by linarith
qed

lemma height_less_iff:
  assumes "i < bins" and "j < bins" and "a \<noteq> []"
  shows "fst (np_histogram a bins) ! i < fst (np_histogram a bins) ! j
       \<longleftrightarrow> bin_counts a bins ! i < bin_counts a bins ! j"
proof -
  define w where "w = (snd (outer_edges a) - fst (outer_edges a)) / real bins"
  define N where "N = real (sum_list (bin_counts a bins))"
  have b: "0 < bins" using assms(1) by simp
  have w: "0 < w" using outer_edges_lt[of a] b by (simp add: w_def)
  have N: "0 < N" using bin_counts_total_pos[OF b assms(3)] by (simp add: N_def)
  have hi: "fst (np_histogram a bins) ! i = real (bin_counts a bins ! i) / w / N"
    using np_histogram_height[OF assms(1), of a] by (simp add: w_def N_def)
  have hj: "fst (np_histogram a bins) ! j = real (bin_counts a bins ! j) / w / N"
    using np_histogram_height[OF assms(2), of a] by (simp add: w_def N_def)
  have wn: "\<not> w * N < 0" using w N by (simp add: mult_less_0_iff)
  show ?thesis using w N wn by (simp add: hi hj divide_less_cancel)
qed

lemma sum_list_real: "sum_list (map real xs) = real (sum_list xs)"
  by (induction xs) simp_all

lemma density_integral:
  assumes "0 < bins" and "a \<noteq> []"
  shows "(\<Sum>i\<leftarrow>[0..<bins]. fst (np_histogram a bins) ! i
            * (snd (np_histogram a bins) ! Suc i - snd (np_histogram a bins) ! i)) = 1"
proof -
  define w where "w = (snd (outer_edges a) - fst (outer_edges a)) / real bins"
  define N where "N = real (sum_list (bin_counts a bins))"
  have w: "0 < w" using outer_edges_lt[of a] assms(1) by (simp add: w_def)
  have N: "0 < N" using bin_counts_total_pos[OF assms] by (simp add: N_def)
  have tm: "fst (np_histogram a bins) ! i
            * (snd (np_histogram a bins) ! Suc i - snd (np_histogram a bins) ! i)
        = real (bin_counts a bins ! i) * (1 / N)" if i: "i < bins" for i
  proof -
    have "fst (np_histogram a bins) ! i = real (bin_counts a bins ! i) / w / N"
      using np_histogram_height[OF i, of a] by (simp add: w_def N_def)
    moreover have "snd (np_histogram a bins) ! Suc i - snd (np_histogram a bins) ! i = w"
      using bin_width[OF i, of a] by (simp add: np_histogram_edges w_def)
    ultimately show ?thesis using w by simp
  qed
  have "(\<Sum>i\<leftarrow>[0..<bins]. fst (np_histogram a bins) ! i
            * (snd (np_histogram a bins) ! Suc i - snd (np_histogram a bins) ! i))
      = (\<Sum>i\<leftarrow>[0..<bins]. real (bin_counts a bins ! i) * (1 / N))"
    by (rule arg_cong[where f = sum_list], rule map_cong[OF refl]) (simp add: tm)
  also have "\<dots> = (\<Sum>i\<leftarrow>[0..<bins]. real (bin_counts a bins ! i)) * (1 / N)"
    by (rule sum_list_mult_const)
  also have "(\<Sum>i\<leftarrow>[0..<bins]. real (bin_counts a bins ! i)) = N"
  proof -
    have "map (\<lambda>i. bin_counts a bins ! i) [0..<bins] = bin_counts a bins"
      by (simp add: bin_counts_def cong: map_cong)
    then have "map real (map (\<lambda>i. bin_counts a bins ! i) [0..<bins]) = map real (bin_counts a bins)"
      by simp
    then have "(\<Sum>i\<leftarrow>[0..<bins]. real (bin_counts a bins ! i)) = sum_list (map real (bin_counts a bins))"
      by (simp add: comp_def)
    also have "\<dots> = real (sum_list (bin_counts a bins))"
      by (rule sum_list_real)
    finally show ?thesis by (simp add: N_def)
  qed
  finally show ?thesis using N by simp
qed

lemma take_clip_plus:
  assumes "i < length data"
  shows "take_clip data (int i + int s) = data ! min (length data - 1) (i + s)"
proof -
  have "nat (max 0 (min (int (length data) - 1) (int i + int s))) = min (length data - 1) (i + s)"
    using assms by (simp add: min_def max_def) linarith
  then show ?thesis by (simp add: take_clip_def)
qed

lemma take_clip_minus:
  assumes "i < length data"
  shows "take_clip data (int i - int s) = data ! (i - s)"
proof -
  have "nat (max 0 (min (int (length data) - 1) (int i - int s))) = i - s"
    using assms by (cases "s \<le> i") (auto simp: min_def max_def nat_diff_distrib)
  then show ?thesis by (simp add: take_clip_def)
qed

lemma nonzero_set:
  "i \<in> set (nonzero (boolrelextrema data cmp order)) \<longleftrightarrow>
     i < length data \<and>
     (\<forall>shift \<in> set [1..<order + 1].
        cmp (data ! i) (take_clip data (int i + int shift)) \<and>
        cmp (data ! i) (take_clip data (int i - int shift)))"
  by (auto simp: nonzero_def boolrelextrema_def)

lemma nonzero_sorted_distinct:
  "sorted (nonzero results) \<and> distinct (nonzero results)"
  by (simp add: nonzero_def sorted_wrt_filter)

lemma clip_rule_iff:
  assumes "1 \<le> order" and "i < length data"
  shows "(\<forall>shift \<in> set [1..<order + 1].
            data ! i < take_clip data (int i + int shift) \<and>
            data ! i < take_clip data (int i - int shift))
       \<longleftrightarrow> 0 < i \<and> Suc i < length data \<and> strict_local_min order data i"
    (is "?code \<longleftrightarrow> ?spec")
proof
  assume c: ?code
  have one: "1 \<in> set [1..<order + 1]" using assms(1) by auto
  have i0: "0 < i"
  proof (rule ccontr)
    assume "\<not> 0 < i"
    then have "i = 0" by simp
    with c one assms(2) have "data ! 0 < data ! 0"
      using take_clip_minus[of 0 data 1] by fastforce
    then show False by simp
  qed
  have i1: "Suc i < length data"
  proof (rule ccontr)
    assume "\<not> Suc i < length data"
    then have e: "i = length data - 1" using assms(2) by simp
    have "take_clip data (int i + int 1) = data ! i"
      using take_clip_plus[OF assms(2), of 1] e by (simp add: min_def)
    with c one show False by fastforce
  qed
  have "data ! i < data ! j"
    if j: "j \<in> set [i - order..<i] \<union> set [Suc i..<min (length data) (Suc (i + order))]" for j
  proof (cases "j < i")
    case True
    then have s: "i - j \<in> set [1..<order + 1]" using j by auto
    have "take_clip data (int i - int (i - j)) = data ! j"
      using take_clip_minus[OF assms(2), of "i - j"] True by simp
    with c s show ?thesis by fastforce
  next
    case False
    then have r: "i < j" "j < length data" "j \<le> i + order" using j by auto
    then have s: "j - i \<in> set [1..<order + 1]" by auto
    have "min (length data - 1) (i + (j - i)) = j" using r by simp
    then have "take_clip data (int i + int (j - i)) = data ! j"
      using take_clip_plus[OF assms(2), of "j - i"] by simp
    with c s show ?thesis by fastforce
  qed
  then show ?spec using i0 i1 assms(2) by (simp add: strict_local_min_def)
next
  assume s: ?spec
  then have i0: "0 < i" and i1: "Suc i < length data"
    and nb: "\<And>j. j \<in> set [i - order..<i] \<union> set [Suc i..<min (length data) (Suc (i + order))]
                \<Longrightarrow> data ! i < data ! j"
    by (simp_all add: strict_local_min_def)
  show ?code
  proof
    fix shift assume "shift \<in> set [1..<order + 1]"
    then have sh: "1 \<le> shift" "shift \<le> order" by auto
    have "min (length data - 1) (i + shift)
            \<in> set [i - order..<i] \<union> set [Suc i..<min (length data) (Suc (i + order))]"
      using sh i1 by (auto simp: min_def)
    then have p: "data ! i < take_clip data (int i + int shift)"
      using nb take_clip_plus[OF assms(2), of shift] by simp
    have "i - shift \<in> set [i - order..<i] \<union> set [Suc i..<min (length data) (Suc (i + order))]"
      using sh i0 by auto
    then have m: "data ! i < take_clip data (int i - int shift)"
      using nb take_clip_minus[OF assms(2), of shift] by simp
    from p m show "data ! i < take_clip data (int i + int shift) \<and>
            data ! i < take_clip data (int i - int shift)" by simp
  qed
qed

lemma argrelmin_char:
  assumes "1 \<le> order"
  shows "\<exists>ms. argrelmin data order = Inr ms \<and> sorted ms \<and> distinct ms
          \<and> (\<forall>i. i \<in> set ms \<longleftrightarrow> 0 < i \<and> Suc i < length data \<and> strict_local_min order data i)"
proof -
  let ?ms = "nonzero (boolrelextrema data (<) order)"
  have "argrelmin data order = Inr ?ms" using assms by (simp add: argrelmin_def)
  moreover have "sorted ?ms \<and> distinct ?ms" by (rule nonzero_sorted_distinct)
  moreover have "i \<in> set ?ms \<longleftrightarrow> 0 < i \<and> Suc i < length data \<and> strict_local_min order data i" for i
    using clip_rule_iff[OF assms, of i data] by (auto simp: nonzero_set strict_local_min_def)
  ultimately show ?thesis by blast
qed

lemma strict_local_min_neighbours:
  assumes "1 \<le> order" and "strict_local_min order h i"
  shows "0 < i \<Longrightarrow> h ! i < h ! (i - 1)" and "Suc i < length h \<Longrightarrow> h ! i < h ! Suc i"
proof -
  have nb: "\<And>j. j \<in> set [i - order..<i] \<union> set [Suc i..<min (length h) (Suc (i + order))]
                \<Longrightarrow> h ! i < h ! j"
    using assms(2) by (simp add: strict_local_min_def)
  show "0 < i \<Longrightarrow> h ! i < h ! (i - 1)"
    by (rule nb) (use assms(1) in auto)
  show "Suc i < length h \<Longrightarrow> h ! i < h ! Suc i"
    by (rule nb) (use assms(1) in auto)
qed

lemma outer_edges_scores8: "outer_edges scores8 = (0, 1)"
  by (simp add: outer_edges_def scores8_def)

lemma bin_edges_scores8:
  assumes "i \<le> 100"
  shows "bin_edges scores8 100 ! i = real i / 100"
  using bin_edges_nth[of 100 i scores8] assms by (simp add: outer_edges_scores8)

lemma in_bin_scores8:
  assumes "i < 100"
  shows "in_bin (bin_edges scores8 100) i
       = (\<lambda>x. real i / 100 \<le> x \<and> (if i = 99 then x \<le> 1 else x < (real i + 1) / 100))"
proof (rule ext)
  fix x
  have a: "bin_edges scores8 100 ! i = real i / 100" using assms by (simp add: bin_edges_scores8)
  have b: "bin_edges scores8 100 ! (i + 1) = (real i + 1) / 100"
    using assms bin_edges_scores8[of "i + 1"] by (simp add: add.commute)
  show "in_bin (bin_edges scores8 100) i x
       \<longleftrightarrow> real i / 100 \<le> x \<and> (if i = 99 then x \<le> 1 else x < (real i + 1) / 100)"
    unfolding in_bin_def a b bin_edges_length using assms by auto
qed

lemma bin_counts_scores8_fn:
  assumes "i < 100"
  shows "bin_counts scores8 100 ! i
       = length (filter (\<lambda>x. real i / 100 \<le> x \<and> (if i = 99 then x \<le> 1 else x < (real i + 1) / 100))
           [0, 3 / 200, 3 / 200, 5 / 200, 5 / 200, 7 / 200, 7 / 200, 1])"
proof -
  have "bin_counts scores8 100 ! i = length (filter (in_bin (bin_edges scores8 100) i) scores8)"
    using assms by (rule bin_counts_nth)
  also have "\<dots> = length (filter (\<lambda>x. real i / 100 \<le> x \<and> (if i = 99 then x \<le> 1 else x < (real i + 1) / 100)) scores8)"
    by (simp only: in_bin_scores8[OF assms])
  finally show ?thesis by (simp only: scores8_def)
qed

lemma bin_counts_scores8:
  assumes "i < 100"
  shows "bin_counts scores8 100 ! i
       = (if i = 0 then 1 else if i \<le> 3 then 2 else if i = 99 then 1 else 0)"
proof -
  consider "i = 0" | "i = 1" | "i = 2" | "i = 3" | "i = 99" | "4 \<le> i" "i \<le> 98"
    using assms by linarith
  then show ?thesis
  proof cases
    case 1 then show ?thesis by (simp add: bin_counts_scores8_fn)
  next
    case 2 then show ?thesis by (simp add: bin_counts_scores8_fn)
  next
    case 3 then show ?thesis by (simp add: bin_counts_scores8_fn)
  next
    case 4 then show ?thesis by (simp add: bin_counts_scores8_fn)
  next
    case 5 then show ?thesis by (simp add: bin_counts_scores8_fn)
  next
    case 6
    then have r: "4 \<le> real i" "real i \<le> 98" by simp_all
    then show ?thesis using 6 by (simp add: bin_counts_scores8_fn[OF assms])
  qed
qed

lemma x_min_char:
  assumes "1 \<le> order"
  shows "\<exists>ms. x_min scores order = Inr ms \<and> sorted ms \<and> distinct ms
          \<and> (\<forall>i. i \<in> set ms \<longleftrightarrow>
                 0 < i \<and> i < 99 \<and> strict_local_min order (fst (np_histogram scores 100)) i)"
  using argrelmin_char[OF assms, of "fst (np_histogram scores 100)"]
  by (simp add: x_min_def np_histogram_lengths)

lemma scores8_height_less:
  assumes "i < 100" and "j < 100"
  shows "fst (np_histogram scores8 100) ! i < fst (np_histogram scores8 100) ! j
       \<longleftrightarrow> bin_counts scores8 100 ! i < bin_counts scores8 100 ! j"
  by (rule height_less_iff[OF assms]) (simp add: scores8_def)

lemma scores8_lowest_bin: "strict_local_min 3 (fst (np_histogram scores8 100)) 0"
proof -
  have "fst (np_histogram scores8 100) ! 0 < fst (np_histogram scores8 100) ! j"
    if "j \<in> set [Suc 0..<4]" for j
  proof -
    have j: "j < 100" "1 \<le> j" "j \<le> 3" using that by auto
    then show ?thesis by (simp add: scores8_height_less bin_counts_scores8)
  qed
  then show ?thesis by (simp add: strict_local_min_def np_histogram_lengths)
qed

lemma scores8_no_minima: "x_min scores8 3 = Inr []"
proof -
  let ?h = "fst (np_histogram scores8 100)"
  from x_min_char[of 3 scores8] obtain ms where ms: "x_min scores8 3 = Inr ms"
    and mem: "\<And>i. i \<in> set ms \<longleftrightarrow> 0 < i \<and> i < 99 \<and> strict_local_min 3 ?h i"
    by auto
  have no: "\<not> (0 < i \<and> i < 99 \<and> strict_local_min 3 ?h i)" for i
  proof
    assume a: "0 < i \<and> i < 99 \<and> strict_local_min 3 ?h i"
    then have i: "0 < i" "i < 99" and slm: "strict_local_min 3 ?h i" by simp_all
    have "?h ! i < ?h ! (i - 1)" using strict_local_min_neighbours(1)[OF _ slm] i by simp
    then have l: "bin_counts scores8 100 ! i < bin_counts scores8 100 ! (i - 1)"
      using i by (simp add: scores8_height_less)
    have "?h ! i < ?h ! Suc i"
      using strict_local_min_neighbours(2)[OF _ slm] i by (simp add: np_histogram_lengths)
    then have r: "bin_counts scores8 100 ! i < bin_counts scores8 100 ! Suc i"
      using i by (simp add: scores8_height_less)
    from l r i show False by (simp add: bin_counts_scores8 split: if_splits)
  qed
  have "i \<notin> set ms" for i unfolding mem by (rule no)
  then have "ms = []" by (cases ms) auto
  then show ?thesis using ms by simp
qed

text \<open>For the column \<open>scores8\<close> the lowest bin is strictly below every bin within three
  positions of it, yet no index is returned: with \<^verbatim>\<open>mode='clip'\<close> the first and the
  last bin are compared with themselves and never qualify.\<close>

theorem edge_bin_counterexample:
  "strict_local_min 3 (fst (np_histogram scores8 100)) 0 \<and> x_min scores8 3 = Inr []"
  using scores8_lowest_bin scores8_no_minima by simp

text \<open>C4 (amended). The histogram has 100 bins and 101 edges and integrates to one for a
  non-empty column. The indices returned for an order of at least 1 are, in increasing
  order and without repetition, exactly the bins other than the first and the last whose
  height is strictly below the height of every bin at most \<open>order\<close> positions away.
  \<^verbatim>\<open>get_score_threshs\<close> maps a selected index to the entry of the edge array at that
  index.\<close>

theorem x_min_interior_strict_minima:
  assumes "1 \<le> order"
  shows "length (fst (np_histogram scores 100)) = 100
       \<and> length (snd (np_histogram scores 100)) = 101
       \<and> (scores \<noteq> [] \<longrightarrow>
            (\<Sum>i\<leftarrow>[0..<100]. fst (np_histogram scores 100) ! i
               * (snd (np_histogram scores 100) ! Suc i - snd (np_histogram scores 100) ! i)) = 1)
       \<and> (\<exists>ms. x_min scores order = Inr ms \<and> sorted ms \<and> distinct ms
            \<and> (\<forall>i. i \<in> set ms \<longleftrightarrow>
                   0 < i \<and> i < 99 \<and> strict_local_min order (fst (np_histogram scores 100)) i))
       \<and> (\<forall>i0 \<in> {..100}. \<forall>i1 \<in> {..100}.
             get_score_threshs [int i0, int i1] scores scores_Mono
               = Inr (snd (np_histogram scores 100) ! i0, snd (np_histogram scores_Mono 100) ! i1))"
proof (intro conjI)
  show "length (fst (np_histogram scores 100)) = 100" by (simp add: np_histogram_lengths)
  show "length (snd (np_histogram scores 100)) = 101" by (simp add: np_histogram_lengths)
  show "scores \<noteq> [] \<longrightarrow>
            (\<Sum>i\<leftarrow>[0..<100]. fst (np_histogram scores 100) ! i
               * (snd (np_histogram scores 100) ! Suc i - snd (np_histogram scores 100) ! i)) = 1"
    by (intro impI density_integral) simp
  show "\<exists>ms. x_min scores order = Inr ms \<and> sorted ms \<and> distinct ms
            \<and> (\<forall>i. i \<in> set ms \<longleftrightarrow>
                   0 < i \<and> i < 99 \<and> strict_local_min order (fst (np_histogram scores 100)) i)"
    using assms by (rule x_min_char)
  show "\<forall>i0 \<in> {..100}. \<forall>i1 \<in> {..100}.
             get_score_threshs [int i0, int i1] scores scores_Mono
               = Inr (snd (np_histogram scores 100) ! i0, snd (np_histogram scores_Mono 100) ! i1)"
    by (simp add: get_score_threshs_nat)
qed

text \<open>The histogram, the minima and the thresholds of the literal columns.\<close>

theorem x_min_interior_strict_minima_witness:
  "length (fst (np_histogram scores8 100)) = 100
   \<and> (\<Sum>i\<leftarrow>[0..<100]. fst (np_histogram scores8 100) ! i
               * (snd (np_histogram scores8 100) ! Suc i - snd (np_histogram scores8 100) ! i)) = 1
   \<and> (\<exists>ms. x_min scores8 3 = Inr ms \<and> sorted ms \<and> distinct ms
            \<and> (\<forall>i. i \<in> set ms \<longleftrightarrow>
                   0 < i \<and> i < 99 \<and> strict_local_min 3 (fst (np_histogram scores8 100)) i))
   \<and> get_score_threshs [32, 36] scores8 scores2
        = Inr (snd (np_histogram scores8 100) ! 32, snd (np_histogram scores2 100) ! 36)"
proof -
  have h: "(1::nat) \<le> 3" by simp
  have ne: "scores8 \<noteq> []" by (simp add: scores8_def)
  note th = x_min_interior_strict_minima[OF h, of scores8 scores2]
  note c1 = th[THEN conjunct1]
  note c3 = th[THEN conjunct2, THEN conjunct2, THEN conjunct1, THEN mp, OF ne]
  note c4 = th[THEN conjunct2, THEN conjunct2, THEN conjunct2, THEN conjunct1]
  note c5 = th[THEN conjunct2, THEN conjunct2, THEN conjunct2, THEN conjunct2]
  have "get_score_threshs [int 32, int 36] scores8 scores2
        = Inr (snd (np_histogram scores8 100) ! 32, snd (np_histogram scores2 100) ! 36)"
    by (rule c5[THEN bspec, THEN bspec]) simp_all
  then have c5': "get_score_threshs [32, 36] scores8 scores2
        = Inr (snd (np_histogram scores8 100) ! 32, snd (np_histogram scores2 100) ! 36)"
    by simp
  show ?thesis by (intro conjI c1 c3 c4 c5')
qed

lemma x_min_unimodal:
  assumes "1 \<le> order"
    and "\<forall>i \<in> {..<100}. \<not> strict_local_min order (fst (np_histogram scores 100)) i"
  shows "x_min scores order = Inr []"
proof -
  from x_min_char[OF assms(1), of scores] obtain ms where ms: "x_min scores order = Inr ms"
    and mem: "\<And>i. i \<in> set ms \<longleftrightarrow>
                 0 < i \<and> i < 99 \<and> strict_local_min order (fst (np_histogram scores 100)) i"
    by auto
  have "i \<notin> set ms" for i
  proof
    assume "i \<in> set ms"
    then have "i < 99" and "strict_local_min order (fst (np_histogram scores 100)) i"
      using mem by simp_all
    moreover from \<open>i < 99\<close> have "i \<in> {..<100}" by simp
    ultimately show False using assms(2) by blast
  qed
  then have "ms = []" by (cases ms) auto
  then show ?thesis using ms by simp
qed

lemma outer_edges_scores2: "outer_edges scores2 = (0, 1)"
  by (simp add: outer_edges_def scores2_def)

lemma in_bin_scores2:
  assumes "i < 100"
  shows "in_bin (bin_edges scores2 100) i
       = (\<lambda>x. real i / 100 \<le> x \<and> (if i = 99 then x \<le> 1 else x < (real i + 1) / 100))"
proof (rule ext)
  fix x
  have a: "bin_edges scores2 100 ! i = real i / 100"
    using bin_edges_nth[of 100 i scores2] assms by (simp add: outer_edges_scores2)
  have b: "bin_edges scores2 100 ! (i + 1) = (real i + 1) / 100"
    using bin_edges_nth[of 100 "i + 1" scores2] assms
    by (simp add: outer_edges_scores2 add.commute)
  show "in_bin (bin_edges scores2 100) i x
       \<longleftrightarrow> real i / 100 \<le> x \<and> (if i = 99 then x \<le> 1 else x < (real i + 1) / 100)"
    unfolding in_bin_def a b bin_edges_length using assms by auto
qed

lemma bin_counts_scores2:
  assumes "i < 100"
  shows "bin_counts scores2 100 ! i = (if i = 0 \<or> i = 99 then 1 else 0)"
proof -
  have "bin_counts scores2 100 ! i = length (filter (in_bin (bin_edges scores2 100) i) scores2)"
    using assms by (rule bin_counts_nth)
  also have "\<dots> = length (filter (\<lambda>x. real i / 100 \<le> x \<and> (if i = 99 then x \<le> 1 else x < (real i + 1) / 100)) scores2)"
    by (simp only: in_bin_scores2[OF assms])
  also have "\<dots> = length (filter (\<lambda>x. real i / 100 \<le> x \<and> (if i = 99 then x \<le> 1 else x < (real i + 1) / 100)) [0, 1])"
    by (simp only: scores2_def)
  also have "\<dots> = (if i = 0 \<or> i = 99 then 1 else 0)"
    using assms by auto
  finally show ?thesis .
qed

lemma scores2_unimodal:
  "\<forall>i \<in> {..<100}. \<not> strict_local_min 3 (fst (np_histogram scores2 100)) i"
proof
  fix i :: nat assume "i \<in> {..<100}"
  then have i: "i < 100" by simp
  let ?h = "fst (np_histogram scores2 100)"
  have less: "?h ! a < ?h ! b \<longleftrightarrow> bin_counts scores2 100 ! a < bin_counts scores2 100 ! b"
    if "a < 100" "b < 100" for a b
    by (rule height_less_iff[OF that]) (simp add: scores2_def)
  show "\<not> strict_local_min 3 ?h i"
  proof
    assume slm: "strict_local_min 3 ?h i"
    have l: "0 < i \<Longrightarrow> bin_counts scores2 100 ! i < bin_counts scores2 100 ! (i - 1)"
      using strict_local_min_neighbours(1)[OF _ slm] i by (simp add: less)
    have r: "i < 99 \<Longrightarrow> bin_counts scores2 100 ! i < bin_counts scores2 100 ! Suc i"
      using strict_local_min_neighbours(2)[OF _ slm] i by (simp add: less np_histogram_lengths)
    consider "i = 0" | "i = 99" | "0 < i" "i < 99" using i by linarith
    then show False
    proof cases
      case 1 with r show False by (simp add: bin_counts_scores2)
    next
      case 2 with l show False by (simp add: bin_counts_scores2)
    next
      case 3 with l r show False by (simp add: bin_counts_scores2 split: if_splits)
    qed
  qed
qed

text \<open>C6. For a B score column whose histogram has no strict local minimum of order 3
  the minima search itself yields the empty sequence, but \<^verbatim>\<open>plot_score_distributions\<close>,
  the function that runs the search, does not get past it: the line after the loop reads
  the unbound loop variable and the call ends with UnboundLocalError, whatever the Mono
  scores are.\<close>

theorem plot_score_distributions_raises_on_unimodal:
  assumes "\<forall>i \<in> {..<100}. \<not> strict_local_min 3 (fst (np_histogram scores_B 100)) i"
  shows "x_min scores_B 3 = Inr []
       \<and> plot_score_distributions scores_B scores_Mono = Inl UnboundLocalError"
proof -
  have h: "(1::nat) \<le> 3" by simp
  have e: "x_min scores_B 3 = Inr []" by (rule x_min_unimodal[OF h assms])
  then show ?thesis by (simp add: plot_score_distributions_def for_e_def)
qed

text \<open>The two-valued column as B scores.\<close>

theorem plot_score_distributions_raises_on_unimodal_witness:
  "x_min scores2 3 = Inr [] \<and> plot_score_distributions scores2 scores8 = Inl UnboundLocalError"
  by (rule plot_score_distributions_raises_on_unimodal[OF scores2_unimodal])

text \<open>When only the Mono minima are empty nothing is raised: the line after the second
  loop is drawn at the last B minimum, which \<open>e\<close> still holds.\<close>

lemma plot_score_distributions_stale_e:
  assumes "x_min scores_B 3 = Inr (ms @ [m])" and "x_min scores_Mono 3 = Inr []"
  shows "plot_score_distributions scores_B scores_Mono = Inr (ms @ [m, m], [m])"
  using assms by (simp add: plot_score_distributions_def for_e_def)

text \<open>C5. Round trip: the selected indices (at most 100) are converted to the edges of the
  recomputed histograms at those indices, and the cells that Policy B then labels with
  the rest label are exactly the cells whose two raw scores are strictly below those two
  threshold values.\<close>

theorem thresholds_round_trip:
  assumes "i0 \<le> 100" and "i1 \<le> 100"
    and "CHR ''_'' \<notin> set sB" and "CHR ''_'' \<notin> set sM"
    and "sB \<noteq> rest_label" and "sM \<noteq> rest_label"
  shows "\<exists>B_thresh M_thresh labs.
      get_score_threshs [int i0, int i1] (obs_col adata (score_col method sB))
          (obs_col adata (score_col method sM)) = Inr (B_thresh, M_thresh)
      \<and> B_thresh = snd (np_histogram (obs_col adata (score_col method sB)) 100) ! i0
      \<and> M_thresh = snd (np_histogram (obs_col adata (score_col method sM)) 100) ! i1
      \<and> scores_HL_2sigs [int i0, int i1] (score_col method sB) (score_col method sM) adata = Inr labs
      \<and> length labs = length (obs_names adata)
      \<and> {i. i < length (obs_names adata) \<and> labs ! i = rest_label}
          = {i. i < length (obs_names adata)
                \<and> obs adata (score_col method sB) (obs_names adata ! i) < B_thresh
                \<and> obs adata (score_col method sM) (obs_names adata ! i) < M_thresh}"
proof -
  let ?cB = "score_col method sB" and ?cM = "score_col method sM"
  define tb where "tb = snd (np_histogram (obs_col adata ?cB) 100) ! i0"
  define tm where "tm = snd (np_histogram (obs_col adata ?cM) 100) ! i1"
  have th: "get_score_threshs [int i0, int i1] (obs_col adata ?cB) (obs_col adata ?cM) = Inr (tb, tm)"
    using get_score_threshs_nat[OF assms(1,2)] by (simp add: tb_def tm_def)
  let ?cval = "map (\<lambda>e. [sB, sM] ! argmax_pos (map (\<lambda>s. obs adata (score_col method s) e) [sB, sM]))
                (obs_names adata)"
  have arg: "scores_HL [?cB, ?cM] adata = Inr ?cval"
    using scores_HL_pair[OF assms(3,4)] .
  from label_2sigs_char[OF arg, of tb tm]
  obtain labs where l: "label_2sigs tb tm ?cB ?cM adata = Inr labs"
    "length labs = length (obs_names adata)"
    "\<forall>i < length (obs_names adata).
        labs ! i = (if obs adata ?cB (obs_names adata ! i) < tb
                       \<and> obs adata ?cM (obs_names adata ! i) < tm
                    then rest_label else ?cval ! i)"
    by blast
  have run: "scores_HL_2sigs [int i0, int i1] ?cB ?cM adata = Inr labs"
    by (simp add: scores_HL_2sigs_def th l(1))
  have nr: "?cval ! i \<noteq> rest_label" if "i < length (obs_names adata)" for i
  proof -
    have "?cval ! i = sB \<or> ?cval ! i = sM"
      using that pair_label_cases[of sB sM] by simp
    then show ?thesis using assms(5,6) by auto
  qed
  have "{i. i < length (obs_names adata) \<and> labs ! i = rest_label}
          = {i. i < length (obs_names adata)
                \<and> obs adata ?cB (obs_names adata ! i) < tb
                \<and> obs adata ?cM (obs_names adata ! i) < tm}"
    using l(3) nr by (auto split: if_splits)
  with th run l(2) show ?thesis unfolding tb_def tm_def by blast
qed

text \<open>The round trip on the literal table for the indices 32 and 36.\<close>

theorem thresholds_round_trip_witness:
  "\<exists>B_thresh M_thresh labs.
      get_score_threshs [int 32, int 36] (obs_col adata4 (score_col ''ANS'' ''B''))
          (obs_col adata4 (score_col ''ANS'' ''Mono'')) = Inr (B_thresh, M_thresh)
      \<and> B_thresh = snd (np_histogram (obs_col adata4 (score_col ''ANS'' ''B'')) 100) ! 32
      \<and> M_thresh = snd (np_histogram (obs_col adata4 (score_col ''ANS'' ''Mono'')) 100) ! 36
      \<and> scores_HL_2sigs [int 32, int 36] (score_col ''ANS'' ''B'') (score_col ''ANS'' ''Mono'') adata4
          = Inr labs
      \<and> length labs = length (obs_names adata4)
      \<and> {i. i < length (obs_names adata4) \<and> labs ! i = rest_label}
          = {i. i < length (obs_names adata4)
                \<and> obs adata4 (score_col ''ANS'' ''B'') (obs_names adata4 ! i) < B_thresh
                \<and> obs adata4 (score_col ''ANS'' ''Mono'') (obs_names adata4 ! i) < M_thresh}"
proof -
  have h1: "(32::nat) \<le> 100" and h2: "(36::nat) \<le> 100" by simp_all
  have h3: "CHR ''_'' \<notin> set ''B''" and h4: "CHR ''_'' \<notin> set ''Mono''" by simp_all
  have h5: "''B'' \<noteq> rest_label" and h6: "''Mono'' \<noteq> rest_label"
    by (simp_all add: rest_label_def)
  show ?thesis by (rule thresholds_round_trip[OF h1 h2 h3 h4 h5 h6])
qed

section \<open>Weighted F1\<close>

lemma tp_sum_same: "tp_sum ys ys c = count_list ys c"
  unfolding tp_sum_def by (induction ys) simp_all

lemma tp_sum_le_pred: "tp_sum yt yp c \<le> count_list yp c"
  unfolding tp_sum_def
proof (induction yp arbitrary: yt)
  case Nil
  then show ?case by simp
next
  case (Cons p ps)
  show ?case
  proof (cases yt)
    case Nil
    then show ?thesis by simp
  next
    case (Cons t ts)
    then show ?thesis using Cons.IH[of ts] by auto
  qed
qed

lemma f_score_same:
  assumes "c \<in> set ys"
  shows "f_score ys ys c = 1"
proof -
  have "count_list ys c \<noteq> 0" using assms by (simp add: count_list_0_iff)
  then show ?thesis
    by (simp add: f_score_def Let_def prf_divide_def tp_sum_same pred_sum_def true_sum_def)
qed

lemma f_score_unpredicted:
  assumes "c \<notin> set y_pred"
  shows "f_score y_true y_pred c = 0"
proof -
  have "count_list y_pred c = 0" using assms by (simp add: count_list_0_iff)
  then have "tp_sum y_true y_pred c = 0" using tp_sum_le_pred[of y_true y_pred c] by simp
  then show ?thesis by (simp add: f_score_def Let_def prf_divide_def)
qed

lemma weights_total:
  "sum_list (map (true_sum y_true) (unique_labels y_true y_pred)) = length y_true"
proof -
  have "sum_list (map (true_sum y_true) (unique_labels y_true y_pred))
      = sum (count_list y_true) (set (y_true @ y_pred))"
    unfolding unique_labels_def
    by (subst sum_list_distinct_conv_sum_set) (simp_all add: true_sum_def[abs_def])
  also have "\<dots> = length y_true" by (rule sum_count_set) simp_all
  finally show ?thesis .
qed

lemma weighted_sum_ground_truth:
  "(\<Sum>c\<leftarrow>unique_labels y_true y_pred. f_score y_true y_pred c * real (true_sum y_true c))
     = (\<Sum>c\<in>set y_true. f_score y_true y_pred c * real (true_sum y_true c))"
proof -
  have "(\<Sum>c\<leftarrow>unique_labels y_true y_pred. f_score y_true y_pred c * real (true_sum y_true c))
      = (\<Sum>c\<in>set (y_true @ y_pred). f_score y_true y_pred c * real (true_sum y_true c))"
    unfolding unique_labels_def
    by (subst sum_list_distinct_conv_sum_set) simp_all
  also have "\<dots> = (\<Sum>c\<in>set y_true. f_score y_true y_pred c * real (true_sum y_true c))"
    by (rule sum.mono_neutral_right) (auto simp: true_sum_def count_list_0_iff)
  finally show ?thesis .
qed

lemma f1_score_value:
  assumes "length y_true = length y_pred"
  shows "f1_score y_true y_pred
       = Inr (if y_true = [] then 0
              else (\<Sum>c\<in>set y_true. f_score y_true y_pred c * real (true_sum y_true c))
                     / real (length y_true))"
proof -
  have "f1_score y_true y_pred
      = (if length y_true = 0 then Inr 0
         else Inr ((\<Sum>c\<in>set y_true. f_score y_true y_pred c * real (true_sum y_true c))
                     / real (length y_true)))"
    using assms
    by (simp only: f1_score_def Let_def weights_total weighted_sum_ground_truth) simp
  then show ?thesis by simp
qed

text \<open>For two empty label vectors all weights are zero and the score is 0.\<close>

theorem f1_score_identical_counterexample:
  "f1_score [] [] = Inr 0 \<and> f1_score [] [] \<noteq> Inr 1"
  by (simp add: f1_score_def unique_labels_def)

text \<open>C8 (amended). For every non-empty ground-truth vector, the weighted F1 of a label
  column identical to it is exactly 1.\<close>

theorem f1_score_identical:
  assumes "y_true \<noteq> []"
  shows "f1_score y_true y_true = Inr 1"
proof -
  have "(\<Sum>c\<in>set y_true. f_score y_true y_true c * real (true_sum y_true c))
      = (\<Sum>c\<in>set y_true. real (count_list y_true c))"
    by (rule sum.cong) (simp_all add: f_score_same true_sum_def)
  also have "\<dots> = real (sum (count_list y_true) (set y_true))" by simp
  also have "sum (count_list y_true) (set y_true) = length y_true"
    by (rule sum_count_set) simp_all
  finally have "(\<Sum>c\<in>set y_true. f_score y_true y_true c * real (true_sum y_true c))
      = real (length y_true)" .
  then show ?thesis using assms by (simp add: f1_score_value)
qed

text \<open>A label vector over three classes against itself.\<close>

theorem f1_score_identical_witness:
  "f1_score [''B'', ''Mono'', ''NK'', ''B''] [''B'', ''Mono'', ''NK'', ''B''] = Inr 1"
  by (rule f1_score_identical) simp

text \<open>A prediction with a category that the ground truth lacks is scored, not refused.\<close>

theorem f1_score_mismatch_counterexample:
  "''Mono'' \<notin> set [''B'', ''B''] \<and> f1_score [''B'', ''B''] [''B'', ''Mono''] = Inr (2 / 3)"
  by (simp add: f1_score_def unique_labels_def f_score_def prf_divide_def tp_sum_def
      pred_sum_def true_sum_def)

text \<open>C7 (amended). For two label vectors of the same length the evaluator returns a score
  and never raises on a mismatch of label spaces: the score is the support-weighted sum
  of the per-class F1 over the ground-truth classes divided by the number of cells (0 for
  empty vectors). A category absent from the ground truth has support zero and so
  weight zero; a class that is never predicted has per-class F1 zero.\<close>

theorem f1_score_zero_support:
  assumes "length y_true = length y_pred"
  shows "f1_score y_true y_pred
       = Inr (if y_true = [] then 0
              else (\<Sum>c\<in>set y_true. f_score y_true y_pred c * real (true_sum y_true c))
                     / real (length y_true))
       \<and> (\<forall>c. c \<notin> set y_true \<longrightarrow> true_sum y_true c = 0)
       \<and> (\<forall>c. c \<notin> set y_pred \<longrightarrow> f_score y_true y_pred c = 0)"
  using f1_score_value[OF assms] f_score_unpredicted
  by (simp add: true_sum_def count_list_0_iff)

text \<open>Two cells of class B, one of them predicted as Mono.\<close>

theorem f1_score_zero_support_witness:
  "f1_score [''B'', ''B''] [''B'', ''Mono'']
       = Inr (if [''B'', ''B''] = [] then 0
              else (\<Sum>c\<in>set [''B'', ''B'']. f_score [''B'', ''B''] [''B'', ''Mono''] c
                       * real (true_sum [''B'', ''B''] c))
                     / real (length [''B'', ''B'']))
   \<and> true_sum [''B'', ''B''] ''Mono'' = 0
   \<and> f_score [''B'', ''Mono''] [''B'', ''B''] ''Mono'' = 0"
proof -
  have h: "length [''B'', ''B''] = length [''B'', ''Mono'']" by simp
  have h': "length [''B'', ''Mono''] = length [''B'', ''B'']" by simp
  have a: "''Mono'' \<notin> set [''B'', ''B'']" by simp
  note t1 = f1_score_zero_support[OF h]
  note t2 = f1_score_zero_support[OF h']
  from t1 have c1: "f1_score [''B'', ''B''] [''B'', ''Mono'']
       = Inr (if [''B'', ''B''] = [] then 0
              else (\<Sum>c\<in>set [''B'', ''B'']. f_score [''B'', ''B''] [''B'', ''Mono''] c
                       * real (true_sum [''B'', ''B''] c))
                     / real (length [''B'', ''B'']))" by (rule conjunct1)
  from t1 a have c2: "true_sum [''B'', ''B''] ''Mono'' = 0" by blast
  from t2 a have c3: "f_score [''B'', ''Mono''] [''B'', ''B''] ''Mono'' = 0" by blast
  show ?thesis by (intro conjI c1 c2 c3)
qed

end
